theory Spec2Isabelle
  imports Main "HOL-Library.Word"
begin

section \<open>Shared data\<close>

type_synonym bytes = "8 word list"

text \<open>
  A content identifier as the program handles it: \<open>cid.Undef\<close> (the zero value
  \<open>cid.Cid{}\<close>) or a version 1 identifier made by \<open>cid.NewCidV1(codec, mhash)\<close> from a
  codec tag and an encoded multihash.
\<close>

datatype cid = Undef | NewCidV1 (codec: "64 word") (mhash: bytes)

text \<open>
  An \<open>ipld.Link\<close> is an interface; the program only tells \<open>cidlink.Link\<close> apart from every
  other implementation (the type assertion \<open>l.(cidlink.Link)\<close>).
\<close>

datatype link = CidLink cid | OtherLink string

text \<open>
  Errors as values. \<open>LibError\<close> stands for an error produced by a library or by the
  operating system; the others are the errors the program itself builds with
  \<open>fmt.Errorf\<close>, with the wrapped error or the formatted argument as their argument.
\<close>

datatype error =
    LibError string
  | EOF
  | NotACidlink
  | CouldNotInterpret link
  | CreateUserAssetError error
  | AssetAlreadyExist string
  | UploadFileWithFormError error

section \<open>progressreader.go\<close>

text \<open>
  \<^verbatim>\<open>
  type ProgressReader struct {
      io.Reader
      Reporter func(r int64)
  }
  \<close>
  The embedded \<open>io.Reader\<close> is an interface value: a state \<open>Reader\<close> of some type \<open>'r\<close>
  together with its method \<open>Reader_Read\<close>. A call \<open>Read(p)\<close> of the wrapped reader takes
  its state and the caller's buffer \<open>p\<close> and gives back \<open>(n, err)\<close>, the buffer as the call
  left it and the reader's next state. \<open>Reporter\<close> is a callback with effects only; the
  state it acts on (the variables its closure captures, the terminal) has type \<open>'o\<close>.
\<close>

record ('r, 'o) ProgressReader =
  Reader :: 'r
  Reader_Read :: "'r \<Rightarrow> bytes \<Rightarrow> (int \<times> error option) \<times> bytes \<times> 'r"
  Reporter :: "int \<Rightarrow> 'o \<Rightarrow> 'o"

text \<open>
  The conversion \<open>int64(n)\<close> of a Go \<open>int\<close> (32 or 64 bits wide) keeps the value.
\<close>

definition int64 :: "int \<Rightarrow> int" where
  "int64 n = n"

text \<open>
  \<^verbatim>\<open>
  func (pr *ProgressReader) Read(p []byte) (n int, err error) {
      n, err = pr.Reader.Read(p)
      pr.Reporter(int64(n))
      return
  }
  \<close>
  The result is \<open>(n, err)\<close>, the buffer, the reader (its embedded reader advanced) and the
  observer's state after the callback.
\<close>

definition ProgressReader_Read ::
  "('r, 'o) ProgressReader \<Rightarrow> bytes \<Rightarrow> 'o \<Rightarrow>
     (int \<times> error option) \<times> bytes \<times> ('r, 'o) ProgressReader \<times> 'o" where
  "ProgressReader_Read pr p obs =
     (case Reader_Read pr (Reader pr) p of
        ((n, err), p', r') \<Rightarrow>
          ((n, err), p', pr\<lparr>Reader := r'\<rparr>, Reporter pr (int64 n) obs))"

text \<open>
  A caller that makes one \<open>Read\<close> call for each buffer of a list, in order, and collects
  what each call returned.
\<close>

fun read_calls ::
  "('r, 'o) ProgressReader \<Rightarrow> bytes list \<Rightarrow> 'o \<Rightarrow>
     (int \<times> error option) list \<times> ('r, 'o) ProgressReader \<times> 'o" where
  "read_calls pr [] obs = ([], pr, obs)"
| "read_calls pr (p # ps) obs =
     (case ProgressReader_Read pr p obs of
        (res, p', pr', obs') \<Rightarrow>
          (case read_calls pr' ps obs' of
             (rs, pr'', obs'') \<Rightarrow> (res # rs, pr'', obs'')))"

text \<open>An observer that only records the values it is called with.\<close>

definition log_report :: "int \<Rightarrow> int list \<Rightarrow> int list" where
  "log_report r log = log @ [r]"

text \<open>
  The observer of \<open>uploadFileWithForm\<close>:
  \<^verbatim>\<open>
  dongSize := int64(0)
  pr := &ProgressReader{body, func(r int64) {
      if r > 0 {
          dongSize += r
          fmt.Printf("progress %d/%d\n", dongSize, totalSize)
      } else {
          fmt.Println("upload complete")
      }
  }}
  \<close>
  Its state is \<open>dongSize\<close> and the lines printed so far.
\<close>

datatype progress_line = Progress int int | UploadComplete

definition upload_reporter :: "int \<Rightarrow> int \<Rightarrow> int \<times> progress_line list \<Rightarrow> int \<times> progress_line list" where
  "upload_reporter totalSize r st =
     (case st of (dongSize, out) \<Rightarrow>
        if r > 0 then (dongSize + r, out @ [Progress (dongSize + r) totalSize])
        else (dongSize, out @ [UploadComplete]))"

text \<open>
  Two wrapped readers to run the reader on. \<open>buffer_Read\<close> is the \<open>Read\<close> of Go's
  \<open>bytes.Buffer\<close> (the reader \<open>uploadFileWithForm\<close> wraps), with the unread bytes as its
  state: an empty buffer answers \<open>(0, nil)\<close> to an empty \<open>p\<close> and \<open>(0, io.EOF)\<close> otherwise,
  a non-empty one copies as much as \<open>p\<close> holds. \<open>eager_Read\<close> is a reader that reports
  \<open>io.EOF\<close> together with the last bytes, which the contract of \<open>io.Reader\<close> allows.
\<close>

definition buffer_Read :: "bytes \<Rightarrow> bytes \<Rightarrow> (int \<times> error option) \<times> bytes \<times> bytes" where
  "buffer_Read buf p =
     (if buf = [] then
        (if p = [] then ((0, None), p, buf) else ((0, Some EOF), p, buf))
      else
        (let n = min (length p) (length buf)
         in ((int n, None), take n buf @ drop n p, drop n buf)))"

definition eager_Read :: "bytes \<Rightarrow> bytes \<Rightarrow> (int \<times> error option) \<times> bytes \<times> bytes" where
  "eager_Read buf p =
     (let n = min (length p) (length buf)
      in ((int n, if drop n buf = [] then Some EOF else None),
          take n buf @ drop n p, drop n buf))"

text \<open>
  The readers the examples run: five bytes behind \<open>eager_Read\<close> with a recording
  observer, and three bytes in a \<open>bytes.Buffer\<close>, with a recording observer and with
  the observer of \<open>uploadFileWithForm\<close>.
\<close>

definition eager_example :: "(bytes, int list) ProgressReader" where
  "eager_example = \<lparr>Reader = [1, 2, 3, 4, 5], Reader_Read = eager_Read, Reporter = log_report\<rparr>"

definition buffer_log_example :: "(bytes, int list) ProgressReader" where
  "buffer_log_example = \<lparr>Reader = [1, 2, 3], Reader_Read = buffer_Read, Reporter = log_report\<rparr>"

definition buffer_example :: "(bytes, int \<times> progress_line list) ProgressReader" where
  "buffer_example = \<lparr>Reader = [1, 2, 3], Reader_Read = buffer_Read, Reporter = upload_reporter 3\<rparr>"

section \<open>The upload step\<close>

text \<open>
  The request and the response of the scheduler's \<open>CreateUserAsset\<close>, with the fields the
  program sets and reads.
\<close>

record AssetProperty =
  AssetCID :: string
  AssetName :: string
  AssetSize :: int
  AssetType :: string

record CreateAssetRsp =
  UploadURL :: string
  Token :: string
  AlreadyExists :: bool

text \<open>
  What \<open>uploadFile\<close> calls, as functions on the state of the world \<open>'w\<close> (the file system,
  the remote service, the terminal): \<open>os.Open\<close> and the file's \<open>Close\<close> and \<open>Stat().Size()\<close>,
  the scheduler's \<open>CreateUserAsset\<close>, the line \<open>fmt.Printf\<close> prints for a failed request,
  and \<open>uploadFileWithForm\<close>, the HTTP transfer (lines 302-377 of the source, all of it
  calls into the standard library), of which \<open>uploadFile\<close> uses the error only.
\<close>

record ('w, 'f) upload_env =
  os_Open :: "string \<Rightarrow> 'w \<Rightarrow> (error + 'f) \<times> 'w"
  file_Close :: "'f \<Rightarrow> 'w \<Rightarrow> 'w"
  file_Stat_Size :: "'f \<Rightarrow> 'w \<Rightarrow> (error + int) \<times> 'w"
  CreateUserAsset :: "AssetProperty \<Rightarrow> 'w \<Rightarrow> (error + CreateAssetRsp) \<times> 'w"
  print_CreateUserAsset_error :: "error \<Rightarrow> 'w \<Rightarrow> 'w"
  uploadFileWithForm :: "string \<Rightarrow> string \<Rightarrow> string \<Rightarrow> 'w \<Rightarrow> error option \<times> 'w"

text \<open>
  \<^verbatim>\<open>
  rsp, err := schedulerAPI.CreateUserAsset(context.Background(), assetProperty)
  if err != nil {
      fmt.Printf("CreateUserAsset error %#v\n", err)
      return fmt.Errorf("CreateUserAsset error %w", err)
  }
  if rsp.AlreadyExists {
      return fmt.Errorf("asset %s already exist", carCID)
  }
  err = uploadFileWithForm(carFilePath, rsp.UploadURL, rsp.Token)
  if err != nil {
      return fmt.Errorf("uploadFileWithForm error %w", err)
  }
  return nil
  \<close>
  \<open>uploadFile_opened\<close> is the function's body once the file is open; \<open>uploadFile\<close> opens
  the file and runs the deferred \<open>f.Close()\<close> after the body.
\<close>

definition uploadFile_opened ::
  "('w, 'f) upload_env \<Rightarrow> 'f \<Rightarrow> string \<Rightarrow> string \<Rightarrow> string \<Rightarrow> string \<Rightarrow> 'w \<Rightarrow>
     error option \<times> 'w" where
  "uploadFile_opened env f carFilePath carCID fileName fileType w =
     (case file_Stat_Size env f w of
        (Inl err, w1) \<Rightarrow> (Some err, w1)
      | (Inr sz, w1) \<Rightarrow>
          (let assetProperty =
             \<lparr>AssetCID = carCID, AssetName = fileName, AssetSize = sz, AssetType = fileType\<rparr>
           in case CreateUserAsset env assetProperty w1 of
                (Inl err, w2) \<Rightarrow>
                  (Some (CreateUserAssetError err), print_CreateUserAsset_error env err w2)
              | (Inr rsp, w2) \<Rightarrow>
                  if AlreadyExists rsp then (Some (AssetAlreadyExist carCID), w2)
                  else
                    (case uploadFileWithForm env carFilePath (UploadURL rsp) (Token rsp) w2 of
                       (Some err, w3) \<Rightarrow> (Some (UploadFileWithFormError err), w3)
                     | (None, w3) \<Rightarrow> (None, w3))))"

definition uploadFile ::
  "('w, 'f) upload_env \<Rightarrow> string \<Rightarrow> string \<Rightarrow> string \<Rightarrow> string \<Rightarrow> 'w \<Rightarrow> error option \<times> 'w" where
  "uploadFile env carFilePath carCID fileName fileType w =
     (case os_Open env carFilePath w of
        (Inl err, w0) \<Rightarrow> (Some err, w0)
      | (Inr f, w0) \<Rightarrow>
          (case uploadFile_opened env f carFilePath carCID fileName fileType w0 of
             (res, w') \<Rightarrow> (res, file_Close env f w')))"

text \<open>
  A world to run \<open>uploadFile\<close> in: the state is the list of transfers made so far; the
  archive is 100 bytes long and the service answers that the asset exists already.
\<close>

definition exists_env :: "((string \<times> string \<times> string) list, unit) upload_env" where
  "exists_env =
     \<lparr>os_Open = (\<lambda>p w. (Inr (), w)),
      file_Close = (\<lambda>f w. w),
      file_Stat_Size = (\<lambda>f w. (Inr 100, w)),
      CreateUserAsset =
        (\<lambda>a w. (Inr \<lparr>UploadURL = ''https://node/upload'', Token = ''t'', AlreadyExists = True\<rparr>, w)),
      print_CreateUserAsset_error = (\<lambda>e w. w),
      uploadFileWithForm = (\<lambda>p url tok w. (None, w @ [(p, url, tok)]))\<rparr>"

section \<open>The libraries behind the archive builder\<close>

text \<open>
  The tags of \<open>multicodec.DagPb\<close> and \<open>multihash.SHA2_256\<close> in the multicodec table.
\<close>

definition DagPb :: "64 word" where
  "DagPb = 0x70"

definition SHA2_256 :: "64 word" where
  "SHA2_256 = 0x12"

text \<open>
  A block is its bytes and its CID (\<open>RawData()\<close> and \<open>Cid()\<close> of \<open>blocks.Block\<close>); a
  \<open>dagpb.PBLink\<close> is a named, sized link of a directory node.
\<close>

record block =
  RawData :: bytes
  Cid :: cid

record PBLink =
  Name :: string
  Tsize :: int
  Hash :: link

text \<open>
  The routines of the UnixFS builder get a Link System and do their work through it. Such
  a routine is modelled by what it does with the Link System, one request after another:
  it returns, or it stores a node (it asks \<open>StorageWriteOpener\<close> for a buffer, writes the
  node's bytes there and calls the committer with the node's link) and goes on with the
  committer's error, or it loads a node (it calls \<open>StorageReadOpener\<close> with a link) and goes
  on with the reader and the error it got. What the routine reads from the input path is
  part of the routine.
\<close>

datatype 'a ls_routine =
    Return 'a
  | Store link bytes "error option \<Rightarrow> 'a ls_routine"
  | Load link "bytes option \<times> error option \<Rightarrow> 'a ls_routine"

text \<open>
  The library functions the builder calls that do not touch the archive file:
  \<open>multihash.GetHasher\<close> (the hasher it returns is given by its \<open>Sum\<close>, called before
  anything is written to it), \<open>multihash.Encode\<close>, the \<open>String\<close> method of a CID,
  \<open>blocks.NewBlockWithCid\<close>, \<open>path.Base\<close> and the three routines of
  \<open>go-unixfsnode/data/builder\<close>, which return a link and a size, or an error.
\<close>

record library =
  GetHasher :: "64 word \<Rightarrow> error + (bytes \<Rightarrow> bytes)"
  Encode :: "bytes \<Rightarrow> 64 word \<Rightarrow> error + bytes"
  cid_String :: "cid \<Rightarrow> string"
  NewBlockWithCid :: "bytes \<Rightarrow> cid \<Rightarrow> error + block"
  path_Base :: "string \<Rightarrow> string"
  BuildUnixFSRecursive :: "string \<Rightarrow> (error + link \<times> 64 word) ls_routine"
  BuildUnixFSDirectoryEntry :: "string \<Rightarrow> int \<Rightarrow> link \<Rightarrow> error + PBLink"
  BuildUnixFSDirectory :: "PBLink list \<Rightarrow> (error + link \<times> 64 word) ls_routine"

text \<open>
  The operations of \<open>go-car\<close> on the archive file, as functions on the state of the world
  \<open>'w\<close>: \<open>blockstore.OpenReadWrite\<close>, the \<open>Put\<close>, \<open>Get\<close> and \<open>Finalize\<close> of the store it
  opens, and \<open>car.ReplaceRootsInFile\<close>. Each returns its error (nil is \<open>None\<close>).
\<close>

record 'w blockstore =
  OpenReadWrite :: "string \<Rightarrow> cid list \<Rightarrow> 'w \<Rightarrow> error option \<times> 'w"
  Put :: "block \<Rightarrow> 'w \<Rightarrow> error option \<times> 'w"
  Get :: "cid \<Rightarrow> 'w \<Rightarrow> (error + block) \<times> 'w"
  Finalize :: "'w \<Rightarrow> error option \<times> 'w"
  ReplaceRootsInFile :: "string \<Rightarrow> cid list \<Rightarrow> 'w \<Rightarrow> error option \<times> 'w"

section \<open>writeFiles\<close>

text \<open>
  The two closures \<open>writeFiles\<close> installs in its Link System.
  \<^verbatim>\<open>
  ls.StorageReadOpener = func(_ ipld.LinkContext, l ipld.Link) (io.Reader, error) {
      cl, ok := l.(cidlink.Link)
      if !ok {
          return nil, fmt.Errorf("not a cidlink")
      }
      blk, err := bs.Get(ctx, cl.Cid)
      if err != nil {
          return nil, err
      }
      return bytes.NewBuffer(blk.RawData()), nil
  }
  \<close>
\<close>

definition StorageReadOpener ::
  "'w blockstore \<Rightarrow> link \<Rightarrow> 'w \<Rightarrow> (bytes option \<times> error option) \<times> 'w" where
  "StorageReadOpener bs l w =
     (case l of
        OtherLink _ \<Rightarrow> ((None, Some NotACidlink), w)
      | CidLink c \<Rightarrow>
          (case Get bs c w of
             (Inl err, w') \<Rightarrow> ((None, Some err), w')
           | (Inr blk, w') \<Rightarrow> ((Some (RawData blk), None), w')))"

text \<open>
  \<^verbatim>\<open>
  ls.StorageWriteOpener = func(_ ipld.LinkContext) (io.Writer, ipld.BlockWriteCommitter, error) {
      buf := bytes.NewBuffer(nil)
      return buf, func(l ipld.Link) error {
          cl, ok := l.(cidlink.Link)
          if !ok {
              return fmt.Errorf("not a cidlink")
          }
          blk, err := blocks.NewBlockWithCid(buf.Bytes(), cl.Cid)
          if err != nil {
              return err
          }
          bs.Put(ctx, blk)
          return nil
      }, nil
  }
  \<close>
  \<open>StorageWriteCommit\<close> is the committer, called with the bytes written to \<open>buf\<close> and the
  link. The error that \<open>bs.Put\<close> returns is dropped.
\<close>

definition StorageWriteCommit ::
  "library \<Rightarrow> 'w blockstore \<Rightarrow> bytes \<Rightarrow> link \<Rightarrow> 'w \<Rightarrow> error option \<times> 'w" where
  "StorageWriteCommit lib bs buf l w =
     (case l of
        OtherLink _ \<Rightarrow> (Some NotACidlink, w)
      | CidLink c \<Rightarrow>
          (case NewBlockWithCid lib buf c of
             Inl err \<Rightarrow> (Some err, w)
           | Inr blk \<Rightarrow> (case Put bs blk w of (_, w') \<Rightarrow> (None, w'))))"

text \<open>A library routine running with the Link System of \<open>writeFiles\<close>.\<close>

primrec run :: "library \<Rightarrow> 'w blockstore \<Rightarrow> 'a ls_routine \<Rightarrow> 'w \<Rightarrow> 'a \<times> 'w" where
  "run lib bs (Return a) w = (a, w)"
| "run lib bs (Store l buf k) w =
     (case StorageWriteCommit lib bs buf l w of (r, w') \<Rightarrow> run lib bs (k r) w')"
| "run lib bs (Load l k) w =
     (case StorageReadOpener bs l w of (r, w') \<Rightarrow> run lib bs (k r) w')"

text \<open>
  \<^verbatim>\<open>
  topLevel := make([]dagpb.PBLink, 0, len(paths))
  for _, p := range paths {
      l, size, err := builder.BuildUnixFSRecursive(p, &ls)
      if err != nil {
          return cid.Undef, err
      }
      if noWrap {
          rcl, ok := l.(cidlink.Link)
          if !ok {
              return cid.Undef, fmt.Errorf("could not interpret %s", l)
          }
          return rcl.Cid, nil
      }
      name := path.Base(p)
      entry, err := builder.BuildUnixFSDirectoryEntry(name, int64(size), l)
      if err != nil {
          return cid.Undef, err
      }
      topLevel = append(topLevel, entry)
  }
  \<close>
  The loop over the paths still to do, with \<open>topLevel\<close> as built so far: \<open>Inl\<close> is a
  \<open>return\<close> of \<open>writeFiles\<close> from inside the loop, \<open>Inr\<close> the \<open>topLevel\<close> the loop ends with.
  \<open>int64(size)\<close> reads the unsigned 64-bit size as a signed one (\<open>sint\<close>).
\<close>

fun writeFiles_loop ::
  "library \<Rightarrow> 'w blockstore \<Rightarrow> bool \<Rightarrow> string list \<Rightarrow> PBLink list \<Rightarrow> 'w \<Rightarrow>
     ((cid \<times> error option) + PBLink list) \<times> 'w" where
  "writeFiles_loop lib bs noWrap [] topLevel w = (Inr topLevel, w)"
| "writeFiles_loop lib bs noWrap (p # ps) topLevel w =
     (case run lib bs (BuildUnixFSRecursive lib p) w of
        (Inl err, w1) \<Rightarrow> (Inl (Undef, Some err), w1)
      | (Inr (l, sz), w1) \<Rightarrow>
          if noWrap then
            (case l of
               OtherLink _ \<Rightarrow> (Inl (Undef, Some (CouldNotInterpret l)), w1)
             | CidLink c \<Rightarrow> (Inl (c, None), w1))
          else
            (case BuildUnixFSDirectoryEntry lib (path_Base lib p) (sint sz) l of
               Inl err \<Rightarrow> (Inl (Undef, Some err), w1)
             | Inr entry \<Rightarrow> writeFiles_loop lib bs noWrap ps (topLevel @ [entry]) w1))"

text \<open>
  \<^verbatim>\<open>
  root, _, err := builder.BuildUnixFSDirectory(topLevel, &ls)
  if err != nil {
      return cid.Undef, nil
  }
  rcl, ok := root.(cidlink.Link)
  if !ok {
      return cid.Undef, fmt.Errorf("could not interpret %s", root)
  }
  return rcl.Cid, nil
  \<close>
  \<open>writeFiles\<close> returns the pair \<open>(cid.Cid, error)\<close> and the world it leaves. The context
  \<open>ctx\<close> is never cancelled and is left out.
\<close>

definition writeFiles ::
  "library \<Rightarrow> 'w blockstore \<Rightarrow> bool \<Rightarrow> string list \<Rightarrow> 'w \<Rightarrow> (cid \<times> error option) \<times> 'w" where
  "writeFiles lib bs noWrap paths w =
     (case writeFiles_loop lib bs noWrap paths [] w of
        (Inl ret, w1) \<Rightarrow> (ret, w1)
      | (Inr topLevel, w1) \<Rightarrow>
          (case run lib bs (BuildUnixFSDirectory lib topLevel) w1 of
             (Inl err, w2) \<Rightarrow> ((Undef, None), w2)
           | (Inr (root, _), w2) \<Rightarrow>
               (case root of
                  OtherLink _ \<Rightarrow> ((Undef, Some (CouldNotInterpret root)), w2)
                | CidLink c \<Rightarrow> ((c, None), w2))))"

section \<open>createCar\<close>

text \<open>
  \<^verbatim>\<open>
  func createCar(input string, output string) (string, error) {
      hasher, err := multihash.GetHasher(multihash.SHA2_256)
      if err != nil {
          return "", err
      }
      digest := hasher.Sum([]byte{})
      hash, err := multihash.Encode(digest, multihash.SHA2_256)
      if err != nil {
          return "", err
      }
      proxyRoot := cid.NewCidV1(uint64(multicodec.DagPb), hash)

      cdest, err := blockstore.OpenReadWrite(output, []cid.Cid{proxyRoot})
      if err != nil {
          return "", err
      }

      root, err := writeFiles(context.TODO(), true, cdest, input)
      if err != nil {
          return "", err
      }

      if err := cdest.Finalize(); err != nil {
          return "", err
      }

      return root.String(), car.ReplaceRootsInFile(output, []cid.Cid{root})
  }
  \<close>
\<close>

definition createCar ::
  "library \<Rightarrow> 'w blockstore \<Rightarrow> string \<Rightarrow> string \<Rightarrow> 'w \<Rightarrow> (string \<times> error option) \<times> 'w" where
  "createCar lib bs input output w =
     (case GetHasher lib SHA2_256 of
        Inl err \<Rightarrow> (('''', Some err), w)
      | Inr hasher_Sum \<Rightarrow>
          (let digest = hasher_Sum []
           in case Encode lib digest SHA2_256 of
                Inl err \<Rightarrow> (('''', Some err), w)
              | Inr hash \<Rightarrow>
                  (let proxyRoot = NewCidV1 DagPb hash
                   in case OpenReadWrite bs output [proxyRoot] w of
                        (Some err, w1) \<Rightarrow> (('''', Some err), w1)
                      | (None, w1) \<Rightarrow>
                          (case writeFiles lib bs True [input] w1 of
                             ((root, Some err), w2) \<Rightarrow> (('''', Some err), w2)
                           | ((root, None), w2) \<Rightarrow>
                               (case Finalize bs w2 of
                                  (Some err, w3) \<Rightarrow> (('''', Some err), w3)
                                | (None, w3) \<Rightarrow>
                                    (case ReplaceRootsInFile bs output [root] w3 of
                                       (err, w4) \<Rightarrow> ((cid_String lib root, err), w4)))))))"

section \<open>The order of the calls on the archive\<close>

text \<open>
  The calls a run makes on the archive file, in order, each with whether it returned a
  nil error. \<open>traced\<close> turns any block store into one that does what the given one does
  and also appends each call to a record kept beside the world.
\<close>

datatype event =
    EvOpenReadWrite string "cid list" bool
  | EvPut cid bool
  | EvGet cid bool
  | EvFinalize bool
  | EvReplaceRootsInFile string "cid list" bool

definition traced :: "'w blockstore \<Rightarrow> ('w \<times> event list) blockstore" where
  "traced bs =
     \<lparr>OpenReadWrite = (\<lambda>path roots (w, tr).
        case OpenReadWrite bs path roots w of
          (err, w') \<Rightarrow> (err, (w', tr @ [EvOpenReadWrite path roots (err = None)]))),
      Put = (\<lambda>blk (w, tr).
        case Put bs blk w of
          (err, w') \<Rightarrow> (err, (w', tr @ [EvPut (Cid blk) (err = None)]))),
      Get = (\<lambda>c (w, tr).
        case Get bs c w of
          (res, w') \<Rightarrow> (res, (w', tr @ [EvGet c (\<not> isl res)]))),
      Finalize = (\<lambda>(w, tr).
        case Finalize bs w of
          (err, w') \<Rightarrow> (err, (w', tr @ [EvFinalize (err = None)]))),
      ReplaceRootsInFile = (\<lambda>path roots (w, tr).
        case ReplaceRootsInFile bs path roots w of
          (err, w') \<Rightarrow> (err, (w', tr @ [EvReplaceRootsInFile path roots (err = None)])))\<rparr>"

text \<open>
  The state machine of the two-phase root commitment as the specification words it: the
  states \<open>Open\<close>, \<open>Finalized\<close> and \<open>RootPatched\<close>, a \<open>put\<close> rejected in any state but
  \<open>Open\<close>, \<open>replaceRoots\<close> rejected except immediately after \<open>Finalized\<close>. \<open>Unopened\<close> is
  the state before \<open>open\<close>, and \<open>Abandoned\<close> the state after an operation that failed,
  where every further operation is rejected. \<open>None\<close> is a rejection.
\<close>

datatype phase = Unopened | Open | Finalized | RootPatched | Abandoned

fun phase_step :: "phase \<Rightarrow> event \<Rightarrow> phase option" where
  "phase_step Unopened (EvOpenReadWrite _ _ ok) = Some (if ok then Open else Abandoned)"
| "phase_step Open (EvPut _ _) = Some Open"
| "phase_step Open (EvGet _ _) = Some Open"
| "phase_step Open (EvFinalize ok) = Some (if ok then Finalized else Abandoned)"
| "phase_step Finalized (EvReplaceRootsInFile _ _ ok) = Some (if ok then RootPatched else Abandoned)"
| "phase_step _ _ = None"

fun phases :: "phase \<Rightarrow> event list \<Rightarrow> phase option" where
  "phases ph [] = Some ph"
| "phases ph (e # es) = (case phase_step ph e of None \<Rightarrow> None | Some ph' \<Rightarrow> phases ph' es)"

fun is_Put :: "event \<Rightarrow> bool" where
  "is_Put (EvPut _ _) = True"
| "is_Put _ = False"

fun is_Finalize :: "event \<Rightarrow> bool" where
  "is_Finalize (EvFinalize _) = True"
| "is_Finalize _ = False"

fun is_ReplaceRoots :: "event \<Rightarrow> bool" where
  "is_ReplaceRoots (EvReplaceRootsInFile _ _ _) = True"
| "is_ReplaceRoots _ = False"

text \<open>The calls that reach into an open store: \<open>Put\<close> and \<open>Get\<close>.\<close>

fun is_access :: "event \<Rightarrow> bool" where
  "is_access (EvPut _ _) = True"
| "is_access (EvGet _ _) = True"
| "is_access _ = False"

section \<open>A library and block stores to run the builder on\<close>

text \<open>
  A small library: every path is a file of one node, whose CID carries the length of
  the path's name; a directory node's CID carries the number of its entries; the routines
  give up when the Link System refuses a node. \<open>path.Base\<close> is taken on names without a
  slash.
\<close>

definition ex_file_cid :: "string \<Rightarrow> cid" where
  "ex_file_cid p = NewCidV1 0x55 [0x12, 1, of_nat (length p)]"

definition ex_dir_cid :: "PBLink list \<Rightarrow> cid" where
  "ex_dir_cid entries = NewCidV1 0x70 [0x12, 1, of_nat (length entries)]"

definition ex_store_node :: "cid \<Rightarrow> bytes \<Rightarrow> 64 word \<Rightarrow> (error + link \<times> 64 word) ls_routine" where
  "ex_store_node c buf sz =
     Store (CidLink c) buf
       (\<lambda>r. case r of Some err \<Rightarrow> Return (Inl err) | None \<Rightarrow> Return (Inr (CidLink c, sz)))"

definition ex_lib :: library where
  "ex_lib =
     \<lparr>GetHasher = (\<lambda>code. Inr (\<lambda>b. b @ [0xe3])),
      Encode = (\<lambda>digest code. Inr (ucast code # of_nat (length digest) # digest)),
      cid_String = (\<lambda>c. if c = Undef then ''b'' else ''bafy''),
      NewBlockWithCid = (\<lambda>buf c. Inr \<lparr>RawData = buf, Cid = c\<rparr>),
      path_Base = (\<lambda>p. p),
      BuildUnixFSRecursive = (\<lambda>p. ex_store_node (ex_file_cid p) [of_nat (length p)] 1),
      BuildUnixFSDirectoryEntry = (\<lambda>name sz l. Inr \<lparr>Name = name, Tsize = sz, Hash = l\<rparr>),
      BuildUnixFSDirectory = (\<lambda>entries. ex_store_node (ex_dir_cid entries) [] 0)\<rparr>"

text \<open>
  Two block stores whose world is the list of the blocks stored: \<open>mem_store\<close> never
  fails; \<open>put_failing_store\<close> is one whose every \<open>Put\<close> fails and stores nothing, while
  its other operations succeed (write failures that \<open>Finalize\<close> does not notice).
\<close>

definition mem_store :: "block list blockstore" where
  "mem_store =
     \<lparr>OpenReadWrite = (\<lambda>path roots w. (None, w)),
      Put = (\<lambda>blk w. (None, w @ [blk])),
      Get = (\<lambda>c w. (case find (\<lambda>b. Cid b = c) w of
                       None \<Rightarrow> Inl (LibError ''not found'') | Some b \<Rightarrow> Inr b, w)),
      Finalize = (\<lambda>w. (None, w)),
      ReplaceRootsInFile = (\<lambda>path roots w. (None, w))\<rparr>"

definition put_failing_store :: "block list blockstore" where
  "put_failing_store = mem_store\<lparr>Put := (\<lambda>blk w. (Some (LibError ''write failed''), w))\<rparr>"

section \<open>Wrapping the paths in a directory node, as the specification words it\<close>

text \<open>
  "The top-level identifiers are wrapped into a directory node": \<open>build_all\<close> builds each
  supplied path in order and keeps the path with the link and size it got,
  \<open>make_entries\<close> makes one directory entry of each, named by the path's base name, and
  \<open>wrap_paths\<close> builds the directory node of these entries and gives its CID. Every
  failure on the way is an error of the whole.
\<close>

fun build_all ::
  "library \<Rightarrow> 'w blockstore \<Rightarrow> string list \<Rightarrow> 'w \<Rightarrow>
     (error + (string \<times> link \<times> 64 word) list) \<times> 'w" where
  "build_all lib bs [] w = (Inr [], w)"
| "build_all lib bs (p # ps) w =
     (case run lib bs (BuildUnixFSRecursive lib p) w of
        (Inl err, w1) \<Rightarrow> (Inl err, w1)
      | (Inr (l, sz), w1) \<Rightarrow>
          (case build_all lib bs ps w1 of
             (Inl err, w2) \<Rightarrow> (Inl err, w2)
           | (Inr rest, w2) \<Rightarrow> (Inr ((p, l, sz) # rest), w2)))"

fun make_entries :: "library \<Rightarrow> (string \<times> link \<times> 64 word) list \<Rightarrow> error + PBLink list" where
  "make_entries lib [] = Inr []"
| "make_entries lib ((p, l, sz) # rest) =
     (case BuildUnixFSDirectoryEntry lib (path_Base lib p) (sint sz) l of
        Inl err \<Rightarrow> Inl err
      | Inr entry \<Rightarrow>
          (case make_entries lib rest of
             Inl err \<Rightarrow> Inl err
           | Inr entries \<Rightarrow> Inr (entry # entries)))"

definition wrap_paths ::
  "library \<Rightarrow> 'w blockstore \<Rightarrow> string list \<Rightarrow> 'w \<Rightarrow> (error + cid) \<times> 'w" where
  "wrap_paths lib bs paths w =
     (case build_all lib bs paths w of
        (Inl err, w1) \<Rightarrow> (Inl err, w1)
      | (Inr built, w1) \<Rightarrow>
          (case make_entries lib built of
             Inl err \<Rightarrow> (Inl err, w1)
           | Inr entries \<Rightarrow>
               (case run lib bs (BuildUnixFSDirectory lib entries) w1 of
                  (Inl err, w2) \<Rightarrow> (Inl err, w2)
                | (Inr (root, _), w2) \<Rightarrow>
                    (case root of
                       OtherLink _ \<Rightarrow> (Inl (CouldNotInterpret root), w2)
                     | CidLink c \<Rightarrow> (Inr c, w2)))))"

section \<open>Properties of the progress reader\<close>

text \<open>
  C9. For every call, \<open>ProgressReader.Read\<close> returns exactly the byte count and the error
  that the wrapped reader's \<open>Read\<close> returned for the caller's own buffer, leaves the buffer
  as the wrapped reader left it, and keeps no bytes of its own: its only state besides the
  callback is the wrapped reader, advanced by that one call.
\<close>

theorem ProgressReader_Read_transparent:
  "fst (ProgressReader_Read pr p obs) = fst (Reader_Read pr (Reader pr) p)
   \<and> fst (snd (ProgressReader_Read pr p obs)) = fst (snd (Reader_Read pr (Reader pr) p))
   \<and> fst (snd (snd (ProgressReader_Read pr p obs)))
       = pr\<lparr>Reader := snd (snd (Reader_Read pr (Reader pr) p))\<rparr>"
  by (simp add: ProgressReader_Read_def split: prod.splits)

lemma ProgressReader_Read_fields:
  "Reader_Read (fst (snd (snd (ProgressReader_Read pr p obs)))) = Reader_Read pr
   \<and> Reporter (fst (snd (snd (ProgressReader_Read pr p obs)))) = Reporter pr"
  by (simp add: ProgressReader_Read_def split: prod.splits)

lemma read_calls_Reporter:
  "Reporter (fst (snd (read_calls pr ps obs))) = Reporter pr"
proof (induction ps arbitrary: pr obs)
  case Nil
  show ?case by simp
next
  case (Cons p ps)
  obtain res p' pr' obs' where step: "ProgressReader_Read pr p obs = (res, p', pr', obs')"
    by (cases "ProgressReader_Read pr p obs") auto
  have "Reporter pr' = Reporter pr"
    using ProgressReader_Read_fields [of pr p obs] step by simp
  moreover obtain rs pr'' obs'' where "read_calls pr' ps obs' = (rs, pr'', obs'')"
    by (cases "read_calls pr' ps obs'") auto
  ultimately show ?case
    using Cons.IH [of pr' obs'] step by simp
qed

lemma read_calls_length: "length (fst (read_calls pr ps obs)) = length ps"
proof (induction ps arbitrary: pr obs)
  case Nil
  show ?case by simp
next
  case (Cons p ps)
  obtain res p' pr' obs' where step: "ProgressReader_Read pr p obs = (res, p', pr', obs')"
    by (cases "ProgressReader_Read pr p obs") auto
  obtain rs pr'' obs'' where rest: "read_calls pr' ps obs' = (rs, pr'', obs'')"
    by (cases "read_calls pr' ps obs'") auto
  show ?case
    using Cons.IH [of pr' obs'] step rest by simp
qed

lemma read_calls_observer:
  "snd (snd (read_calls pr ps obs))
     = foldl (\<lambda>ob r. Reporter pr (int64 (fst r)) ob) obs (fst (read_calls pr ps obs))"
proof (induction ps arbitrary: pr obs)
  case Nil
  show ?case by simp
next
  case (Cons p ps)
  obtain res p' pr' obs' where step: "ProgressReader_Read pr p obs = (res, p', pr', obs')"
    by (cases "ProgressReader_Read pr p obs") auto
  have rep: "Reporter pr' = Reporter pr"
    using ProgressReader_Read_fields [of pr p obs] step by simp
  have obs': "obs' = Reporter pr (int64 (fst res)) obs"
    using step by (auto simp: ProgressReader_Read_def split: prod.splits)
  obtain rs pr'' obs'' where rest: "read_calls pr' ps obs' = (rs, pr'', obs'')"
    by (cases "read_calls pr' ps obs'") auto
  show ?case
    using Cons.IH [of pr' obs'] step rest rep obs' by simp
qed

lemma foldl_log_report:
  "foldl (\<lambda>ob r. log_report (f r) ob) log rs = log @ map f rs"
  by (induction rs arbitrary: log) (simp_all add: log_report_def)

text \<open>
  C4 (as amended). For every sequence of \<open>Read\<close> calls through a \<open>ProgressReader\<close>, one
  call per buffer, the observer is invoked exactly once per call with the byte count
  \<open>s\<^sub>i\<close> that call returned, in order, and not otherwise: the record of a recording
  observer grows by exactly the list of the counts. A report of 0 is there exactly for the
  calls that returned 0 bytes; the reader adds no report of its own at the end.
\<close>

theorem read_calls_reports_once_per_call:
  "length (fst (read_calls (pr\<lparr>Reporter := log_report\<rparr>) ps log)) = length ps
   \<and> snd (snd (read_calls (pr\<lparr>Reporter := log_report\<rparr>) ps log))
       = log @ map (\<lambda>r. int64 (fst r)) (fst (read_calls (pr\<lparr>Reporter := log_report\<rparr>) ps log))"
  using read_calls_observer [of "pr\<lparr>Reporter := log_report\<rparr>" ps log]
  by (simp add: read_calls_length foldl_log_report)

text \<open>
  C4 as stated fails. One read of five bytes from a wrapped reader that reports \<open>io.EOF\<close>
  with its last bytes consumes the whole stream, and the observer has been invoked once,
  with 5: there is no further invocation with 0. Likewise the three bytes of a
  \<open>bytes.Buffer\<close> read by one call into a buffer of three: the reads total the whole body
  and the observer has seen 3 only. A report of 0 needs a further \<open>Read\<close> call.
\<close>

theorem read_calls_no_final_zero:
  "fst (read_calls eager_example [replicate 5 0] []) = [(5, Some EOF)]
   \<and> snd (snd (read_calls eager_example [replicate 5 0] [])) = [5]
   \<and> snd (snd (read_calls eager_example [replicate 5 0] [])) \<noteq> [5, 0]
   \<and> fst (read_calls buffer_log_example [replicate 3 0] []) = [(3, None)]
   \<and> Reader (fst (snd (read_calls buffer_log_example [replicate 3 0] []))) = []
   \<and> snd (snd (read_calls buffer_log_example [replicate 3 0] [])) \<noteq> [3, 0]"
  by (simp add: eager_example_def buffer_log_example_def ProgressReader_Read_def eager_Read_def
      buffer_Read_def log_report_def int64_def)

text \<open>
  C10. Every call of \<open>ProgressReader.Read\<close> invokes \<open>Reporter\<close> exactly once, with the
  byte count the wrapped reader returned, whatever the error returned with it; so a
  wrapped reader that yields a zero-byte read makes the observer see 0, whether or not the
  stream has ended.
\<close>

theorem ProgressReader_Read_reports_every_call:
  "snd (snd (snd (ProgressReader_Read pr p obs)))
     = Reporter pr (int64 (fst (fst (Reader_Read pr (Reader pr) p)))) obs
   \<and> (fst (fst (Reader_Read pr (Reader pr) p)) = 0 \<longrightarrow>
        snd (snd (snd (ProgressReader_Read pr p obs))) = Reporter pr 0 obs)"
  by (simp add: ProgressReader_Read_def int64_def split: prod.splits)

text \<open>
  A \<open>bytes.Buffer\<close> that still holds three bytes answers \<open>(0, nil)\<close> to an empty buffer
  \<open>p\<close>: the observer of \<open>uploadFileWithForm\<close> prints "upload complete" although
  nothing has been read.
\<close>

theorem ProgressReader_Read_reports_every_call_witness:
  "fst (buffer_Read [1, 2, 3] []) = (0, None)
   \<and> snd (snd (snd (ProgressReader_Read buffer_example [] (0, [])))) = (0, [UploadComplete])
   \<and> Reader (fst (snd (snd (ProgressReader_Read buffer_example [] (0, []))))) = [1, 2, 3]"
  using ProgressReader_Read_reports_every_call [of buffer_example "[]" "(0, [])"]
  by (simp add: buffer_example_def buffer_Read_def upload_reporter_def ProgressReader_Read_def)

section \<open>Properties of the upload step\<close>

text \<open>
  C2 (as amended). For every upload where the file opens, its size is read and the remote
  service's \<open>CreateUserAsset\<close> response reports \<open>AlreadyExists\<close>, \<open>uploadFile\<close> skips the
  transfer (the world after the call is the world after the request, with the file
  closed) and returns the non-nil error "asset <CID> already exist".
\<close>

theorem uploadFile_already_exists_is_error:
  assumes "os_Open env carFilePath w = (Inr f, w0)"
    and "file_Stat_Size env f w0 = (Inr sz, w1)"
    and "CreateUserAsset env
           \<lparr>AssetCID = carCID, AssetName = fileName, AssetSize = sz, AssetType = fileType\<rparr> w1
         = (Inr rsp, w2)"
    and "AlreadyExists rsp"
  shows "uploadFile env carFilePath carCID fileName fileType w
         = (Some (AssetAlreadyExist carCID), file_Close env f w2)"
  using assms by (simp add: uploadFile_def uploadFile_opened_def)

theorem uploadFile_already_exists_is_error_witness:
  "uploadFile exists_env ''/tmp/a.car'' ''bafy'' ''a'' ''file'' []
     = (Some (AssetAlreadyExist ''bafy''), [])"
  using uploadFile_already_exists_is_error
    [of exists_env "''/tmp/a.car''" "[]" "()" "[]" 100 "[]" "''bafy''" "''a''" "''file''"
        "\<lparr>UploadURL = ''https://node/upload'', Token = ''t'', AlreadyExists = True\<rparr>" "[]"]
  by (simp add: exists_env_def)

text \<open>
  C2 as stated fails: with a service that reports \<open>AlreadyExists\<close>, the error \<open>uploadFile\<close>
  returns is not nil.
\<close>

theorem uploadFile_already_exists_not_success:
  "fst (uploadFile exists_env ''/tmp/a.car'' ''bafy'' ''a'' ''file'' []) \<noteq> None"
  by (simp add: exists_env_def uploadFile_def uploadFile_opened_def)

section \<open>Properties of the archive builder\<close>

subsection \<open>Failures inside writeFiles\<close>

text \<open>
  C1. The claim is that every failure of a node-assembly or block-store write step inside
  \<open>writeFiles\<close> reaches the caller as a non-nil error. The code does otherwise at two
  places. When \<open>BuildUnixFSDirectory\<close> fails for the final directory node, \<open>writeFiles\<close>
  returns \<open>cid.Undef\<close> with a nil error; and when every \<open>Put\<close> of the block store fails,
  \<open>writeFiles\<close> returns the root with a nil error and \<open>createCar\<close> reports an archive in
  which no block was stored.
\<close>

theorem writeFiles_swallows_failures:
  "writeFiles (ex_lib\<lparr>BuildUnixFSDirectory := (\<lambda>entries. Return (Inl (LibError ''directory'')))\<rparr>)
       mem_store False [''a''] []
     = ((Undef, None), [\<lparr>RawData = [1], Cid = ex_file_cid ''a''\<rparr>])
   \<and> writeFiles ex_lib put_failing_store True [''a''] [] = ((ex_file_cid ''a'', None), [])
   \<and> createCar ex_lib put_failing_store ''a'' ''out.car'' [] = ((''bafy'', None), [])"
  by (simp add: writeFiles_def createCar_def ex_lib_def mem_store_def put_failing_store_def
      ex_store_node_def StorageWriteCommit_def ex_file_cid_def)

subsection \<open>Wrapping\<close>

lemma build_all_paths:
  "build_all lib bs paths w = (Inr built, w1) \<Longrightarrow> map fst built = paths"
proof (induction paths arbitrary: w built w1)
  case Nil
  then show ?case by simp
next
  case (Cons p ps)
  then show ?case
    by (auto split: prod.splits sum.splits)
qed

lemma writeFiles_loop_wraps:
  "build_all lib bs paths w = (Inr built, w1) \<Longrightarrow> make_entries lib built = Inr entries \<Longrightarrow>
   writeFiles_loop lib bs False paths topLevel w = (Inr (topLevel @ entries), w1)"
proof (induction paths arbitrary: w built entries topLevel)
  case Nil
  then show ?case by simp
next
  case (Cons p ps)
  from Cons.prems(1) obtain l sz w0 rest where
    first: "run lib bs (BuildUnixFSRecursive lib p) w = (Inr (l, sz), w0)" and
    rest: "build_all lib bs ps w0 = (Inr rest, w1)" and
    built: "built = (p, l, sz) # rest"
    by (auto split: prod.splits sum.splits)
  from Cons.prems(2) built obtain entry es where
    entry: "BuildUnixFSDirectoryEntry lib (path_Base lib p) (sint sz) l = Inr entry" and
    es: "make_entries lib rest = Inr es" and
    entries: "entries = entry # es"
    by (auto split: sum.splits)
  have "writeFiles_loop lib bs False ps (topLevel @ [entry]) w0 = (Inr ((topLevel @ [entry]) @ es), w1)"
    using Cons.IH [OF rest es] .
  then show ?case
    using first entry entries by simp
qed

text \<open>
  C3 (as amended). Without no-wrap, whatever the number of paths, a call of \<open>writeFiles\<close>
  whose build steps all succeed returns the CID of a synthetic directory node wrapping all
  supplied paths in order, one entry for each. With no-wrap, a call with at least one path
  returns the bare CID of the first path once that path is built, and goes no further.
\<close>

theorem writeFiles_wraps_unless_noWrap:
  "(wrap_paths lib bs paths w = (Inr c, w') \<longrightarrow>
      writeFiles lib bs False paths w = ((c, None), w'))
   \<and> (build_all lib bs paths w = (Inr built, w1) \<longrightarrow> map fst built = paths)
   \<and> (run lib bs (BuildUnixFSRecursive lib p) w = (Inr (CidLink c1, sz), w2) \<longrightarrow>
      writeFiles lib bs True (p # ps) w = ((c1, None), w2))"
proof (intro conjI impI)
  assume wrap: "wrap_paths lib bs paths w = (Inr c, w')"
  then obtain built w1 entries sz where
    built: "build_all lib bs paths w = (Inr built, w1)" and
    entries: "make_entries lib built = Inr entries" and
    dir: "run lib bs (BuildUnixFSDirectory lib entries) w1 = (Inr (CidLink c, sz), w')"
    by (auto simp: wrap_paths_def split: prod.splits sum.splits link.splits)
  have "writeFiles_loop lib bs False paths [] w = (Inr entries, w1)"
    using writeFiles_loop_wraps [OF built entries, of "[]"] by simp
  then show "writeFiles lib bs False paths w = ((c, None), w')"
    using dir by (simp add: writeFiles_def)
next
  assume "build_all lib bs paths w = (Inr built, w1)"
  then show "map fst built = paths"
    by (rule build_all_paths)
next
  assume "run lib bs (BuildUnixFSRecursive lib p) w = (Inr (CidLink c1, sz), w2)"
  then show "writeFiles lib bs True (p # ps) w = ((c1, None), w2)"
    by (simp add: writeFiles_def)
qed

lemma ex_run_file:
  "run ex_lib mem_store (BuildUnixFSRecursive ex_lib p) w
     = (Inr (CidLink (ex_file_cid p), 1), w @ [\<lparr>RawData = [of_nat (length p)], Cid = ex_file_cid p\<rparr>])"
  by (simp add: ex_lib_def mem_store_def ex_store_node_def StorageWriteCommit_def)

theorem writeFiles_wraps_unless_noWrap_witness:
  "wrap_paths ex_lib mem_store [''a'', ''bb''] []
     = (Inr (NewCidV1 0x70 [0x12, 1, 2]),
        [\<lparr>RawData = [1], Cid = ex_file_cid ''a''\<rparr>, \<lparr>RawData = [2], Cid = ex_file_cid ''bb''\<rparr>,
         \<lparr>RawData = [], Cid = NewCidV1 0x70 [0x12, 1, 2]\<rparr>])
   \<and> writeFiles ex_lib mem_store False [''a'', ''bb''] []
     = ((NewCidV1 0x70 [0x12, 1, 2], None),
        [\<lparr>RawData = [1], Cid = ex_file_cid ''a''\<rparr>, \<lparr>RawData = [2], Cid = ex_file_cid ''bb''\<rparr>,
         \<lparr>RawData = [], Cid = NewCidV1 0x70 [0x12, 1, 2]\<rparr>])
   \<and> build_all ex_lib mem_store [''a'', ''bb''] []
     = (Inr [(''a'', CidLink (ex_file_cid ''a''), 1), (''bb'', CidLink (ex_file_cid ''bb''), 1)],
        [\<lparr>RawData = [1], Cid = ex_file_cid ''a''\<rparr>, \<lparr>RawData = [2], Cid = ex_file_cid ''bb''\<rparr>])
   \<and> writeFiles ex_lib mem_store True [''a''] []
     = ((ex_file_cid ''a'', None), [\<lparr>RawData = [1], Cid = ex_file_cid ''a''\<rparr>])"
proof -
  let ?a = "\<lparr>RawData = [1], Cid = ex_file_cid ''a''\<rparr>"
  let ?b = "\<lparr>RawData = [2], Cid = ex_file_cid ''bb''\<rparr>"
  let ?d = "\<lparr>RawData = [], Cid = NewCidV1 0x70 [0x12, 1, 2]\<rparr>"
  have built: "build_all ex_lib mem_store [''a'', ''bb''] []
      = (Inr [(''a'', CidLink (ex_file_cid ''a''), 1), (''bb'', CidLink (ex_file_cid ''bb''), 1)], [?a, ?b])"
    by (simp add: ex_run_file)
  have entries: "make_entries ex_lib [(''a'', CidLink (ex_file_cid ''a''), 1), (''bb'', CidLink (ex_file_cid ''bb''), 1)]
      = Inr [\<lparr>Name = ''a'', Tsize = 1, Hash = CidLink (ex_file_cid ''a'')\<rparr>,
             \<lparr>Name = ''bb'', Tsize = 1, Hash = CidLink (ex_file_cid ''bb'')\<rparr>]"
    by (simp add: ex_lib_def)
  have wrap: "wrap_paths ex_lib mem_store [''a'', ''bb''] [] = (Inr (NewCidV1 0x70 [0x12, 1, 2]), [?a, ?b, ?d])"
    unfolding wrap_paths_def built
    by (simp add: entries) (simp add: ex_lib_def mem_store_def ex_store_node_def StorageWriteCommit_def ex_dir_cid_def)
  have first: "run ex_lib mem_store (BuildUnixFSRecursive ex_lib ''a'') [] = (Inr (CidLink (ex_file_cid ''a''), 1), [?a])"
    by (simp add: ex_run_file)
  show ?thesis
    using writeFiles_wraps_unless_noWrap
      [of ex_lib mem_store "[''a'', ''bb'']" "[]" "NewCidV1 0x70 [0x12, 1, 2]" "[?a, ?b, ?d]"
          "[(''a'', CidLink (ex_file_cid ''a''), 1), (''bb'', CidLink (ex_file_cid ''bb''), 1)]" "[?a, ?b]"
          "''a''" "ex_file_cid ''a''" 1 "[?a]" "[]"]
      built wrap first
    by simp
qed

text \<open>
  C3 as stated fails: called with no-wrap and the two paths \<open>a\<close> and \<open>bb\<close>, \<open>writeFiles\<close>
  returns the bare CID of \<open>a\<close>, and the store holds the block of \<open>a\<close> alone: \<open>bb\<close> was not
  built and no directory node was made. The same call without no-wrap returns the CID of
  the directory node of two entries.
\<close>

theorem writeFiles_noWrap_two_paths:
  "writeFiles ex_lib mem_store True [''a'', ''bb''] []
     = ((ex_file_cid ''a'', None), [\<lparr>RawData = [1], Cid = ex_file_cid ''a''\<rparr>])
   \<and> fst (fst (writeFiles ex_lib mem_store False [''a'', ''bb''] [])) = NewCidV1 0x70 [0x12, 1, 2]
   \<and> ex_file_cid ''a'' \<noteq> NewCidV1 0x70 [0x12, 1, 2]"
  by (simp add: writeFiles_def ex_lib_def mem_store_def ex_store_node_def StorageWriteCommit_def
      ex_file_cid_def ex_dir_cid_def)

subsection \<open>Failures of createCar\<close>

text \<open>
  C8. Whenever a step of \<open>createCar\<close> before the root replacement fails (getting the
  hasher, encoding the multihash, opening the store, \<open>writeFiles\<close>, or \<open>Finalize\<close>),
  \<open>createCar\<close> returns the empty string as the root together with that step's non-nil
  error; so a root that is not the empty string is only reported after \<open>Finalize\<close> has
  succeeded. Once \<open>Finalize\<close> has succeeded, the root's string is returned with whatever
  error \<open>ReplaceRootsInFile\<close> gives.
\<close>

theorem createCar_failure_returns_empty_root:
  "(GetHasher lib SHA2_256 = Inl e \<longrightarrow>
      createCar lib bs input output w = (('''', Some e), w))
   \<and> (GetHasher lib SHA2_256 = Inr h \<and> Encode lib (h []) SHA2_256 = Inl e \<longrightarrow>
      createCar lib bs input output w = (('''', Some e), w))
   \<and> (GetHasher lib SHA2_256 = Inr h \<and> Encode lib (h []) SHA2_256 = Inr mh
      \<and> OpenReadWrite bs output [NewCidV1 DagPb mh] w = (Some e, w1) \<longrightarrow>
      createCar lib bs input output w = (('''', Some e), w1))
   \<and> (GetHasher lib SHA2_256 = Inr h \<and> Encode lib (h []) SHA2_256 = Inr mh
      \<and> OpenReadWrite bs output [NewCidV1 DagPb mh] w = (None, w1)
      \<and> writeFiles lib bs True [input] w1 = ((c, Some e), w2) \<longrightarrow>
      createCar lib bs input output w = (('''', Some e), w2))
   \<and> (GetHasher lib SHA2_256 = Inr h \<and> Encode lib (h []) SHA2_256 = Inr mh
      \<and> OpenReadWrite bs output [NewCidV1 DagPb mh] w = (None, w1)
      \<and> writeFiles lib bs True [input] w1 = ((c, None), w2)
      \<and> Finalize bs w2 = (Some e, w3) \<longrightarrow>
      createCar lib bs input output w = (('''', Some e), w3))
   \<and> (GetHasher lib SHA2_256 = Inr h \<and> Encode lib (h []) SHA2_256 = Inr mh
      \<and> OpenReadWrite bs output [NewCidV1 DagPb mh] w = (None, w1)
      \<and> writeFiles lib bs True [input] w1 = ((c, None), w2)
      \<and> Finalize bs w2 = (None, w3)
      \<and> ReplaceRootsInFile bs output [c] w3 = (r, w4) \<longrightarrow>
      createCar lib bs input output w = ((cid_String lib c, r), w4))
   \<and> (fst (fst (createCar lib bs input output w)) \<noteq> '''' \<longrightarrow>
      (\<exists>h mh w1 c w2 w3.
         GetHasher lib SHA2_256 = Inr h \<and> Encode lib (h []) SHA2_256 = Inr mh
         \<and> OpenReadWrite bs output [NewCidV1 DagPb mh] w = (None, w1)
         \<and> writeFiles lib bs True [input] w1 = ((c, None), w2)
         \<and> Finalize bs w2 = (None, w3)))"
proof (intro conjI impI)
  assume "fst (fst (createCar lib bs input output w)) \<noteq> ''''"
  then show "\<exists>h mh w1 c w2 w3.
         GetHasher lib SHA2_256 = Inr h \<and> Encode lib (h []) SHA2_256 = Inr mh
         \<and> OpenReadWrite bs output [NewCidV1 DagPb mh] w = (None, w1)
         \<and> writeFiles lib bs True [input] w1 = ((c, None), w2)
         \<and> Finalize bs w2 = (None, w3)"
    by (simp add: createCar_def split: sum.splits prod.splits option.splits)
qed (simp_all add: createCar_def)

theorem createCar_failure_returns_empty_root_witness:
  "createCar (ex_lib\<lparr>GetHasher := (\<lambda>code. Inl (LibError ''hasher''))\<rparr>) mem_store ''a'' ''out.car'' []
     = (('''', Some (LibError ''hasher'')), [])
   \<and> createCar (ex_lib\<lparr>Encode := (\<lambda>digest code. Inl (LibError ''encode''))\<rparr>) mem_store ''a'' ''out.car'' []
     = (('''', Some (LibError ''encode'')), [])
   \<and> createCar ex_lib (mem_store\<lparr>OpenReadWrite := (\<lambda>path roots w. (Some (LibError ''open''), w))\<rparr>)
       ''a'' ''out.car'' []
     = (('''', Some (LibError ''open'')), [])
   \<and> createCar (ex_lib\<lparr>BuildUnixFSRecursive := (\<lambda>p. Return (Inl (LibError ''read'')))\<rparr>) mem_store
       ''a'' ''out.car'' []
     = (('''', Some (LibError ''read'')), [])
   \<and> createCar ex_lib (mem_store\<lparr>Finalize := (\<lambda>w. (Some (LibError ''flush''), w))\<rparr>) ''a'' ''out.car'' []
     = (('''', Some (LibError ''flush'')), [\<lparr>RawData = [1], Cid = ex_file_cid ''a''\<rparr>])
   \<and> fst (createCar ex_lib mem_store ''a'' ''out.car'' []) = (''bafy'', None)
   \<and> Finalize mem_store [\<lparr>RawData = [1], Cid = ex_file_cid ''a''\<rparr>]
     = (None, [\<lparr>RawData = [1], Cid = ex_file_cid ''a''\<rparr>])"
proof -
  let ?blk = "\<lparr>RawData = [1], Cid = ex_file_cid ''a''\<rparr>"
  let ?sum = "\<lambda>b :: bytes. b @ [0xe3]"
  let ?mh = "[0x12, 1, 0xe3] :: bytes"
  have 1: "createCar (ex_lib\<lparr>GetHasher := (\<lambda>code. Inl (LibError ''hasher''))\<rparr>) mem_store ''a'' ''out.car'' []
     = (('''', Some (LibError ''hasher'')), [])"
    using createCar_failure_returns_empty_root
      [where lib = "ex_lib\<lparr>GetHasher := (\<lambda>code. Inl (LibError ''hasher''))\<rparr>"
         and e = "LibError ''hasher''" and bs = mem_store and input = "''a''"
         and ?output = "''out.car''" and w = "[]"]
    by simp
  have 2: "createCar (ex_lib\<lparr>Encode := (\<lambda>digest code. Inl (LibError ''encode''))\<rparr>) mem_store ''a'' ''out.car'' []
     = (('''', Some (LibError ''encode'')), [])"
    using createCar_failure_returns_empty_root
      [where lib = "ex_lib\<lparr>Encode := (\<lambda>digest code. Inl (LibError ''encode''))\<rparr>"
         and e = "LibError ''encode''" and h = ?sum and bs = mem_store and input = "''a''"
         and ?output = "''out.car''" and w = "[]"]
    by (simp add: ex_lib_def)
  have 3: "createCar ex_lib (mem_store\<lparr>OpenReadWrite := (\<lambda>path roots w. (Some (LibError ''open''), w))\<rparr>)
       ''a'' ''out.car'' []
     = (('''', Some (LibError ''open'')), [])"
    using createCar_failure_returns_empty_root
      [where lib = ex_lib and e = "LibError ''open''" and h = ?sum and mh = ?mh
         and bs = "mem_store\<lparr>OpenReadWrite := (\<lambda>path roots w. (Some (LibError ''open''), w))\<rparr>"
         and input = "''a''" and ?output = "''out.car''" and w = "[]" and ?w1.0 = "[]"]
    by (simp add: ex_lib_def SHA2_256_def)
  have 4: "createCar (ex_lib\<lparr>BuildUnixFSRecursive := (\<lambda>p. Return (Inl (LibError ''read'')))\<rparr>) mem_store
       ''a'' ''out.car'' []
     = (('''', Some (LibError ''read'')), [])"
    using createCar_failure_returns_empty_root
      [where lib = "ex_lib\<lparr>BuildUnixFSRecursive := (\<lambda>p. Return (Inl (LibError ''read'')))\<rparr>"
         and e = "LibError ''read''" and h = ?sum and mh = ?mh and bs = mem_store
         and input = "''a''" and ?output = "''out.car''" and w = "[]" and ?w1.0 = "[]"
         and c = Undef and ?w2.0 = "[]"]
    by (simp add: ex_lib_def mem_store_def SHA2_256_def writeFiles_def)
  have 5: "createCar ex_lib (mem_store\<lparr>Finalize := (\<lambda>w. (Some (LibError ''flush''), w))\<rparr>) ''a'' ''out.car'' []
     = (('''', Some (LibError ''flush'')), [?blk])"
    using createCar_failure_returns_empty_root
      [where lib = ex_lib and e = "LibError ''flush''" and h = ?sum and mh = ?mh
         and bs = "mem_store\<lparr>Finalize := (\<lambda>w. (Some (LibError ''flush''), w))\<rparr>"
         and input = "''a''" and ?output = "''out.car''" and w = "[]" and ?w1.0 = "[]"
         and c = "ex_file_cid ''a''" and ?w2.0 = "[?blk]" and ?w3.0 = "[?blk]"]
    by (simp add: ex_lib_def mem_store_def SHA2_256_def writeFiles_def ex_store_node_def
        StorageWriteCommit_def)
  have "createCar ex_lib mem_store ''a'' ''out.car'' [] = ((cid_String ex_lib (ex_file_cid ''a''), None), [?blk])"
    using createCar_failure_returns_empty_root
      [where lib = ex_lib and h = ?sum and mh = ?mh and bs = mem_store
         and input = "''a''" and ?output = "''out.car''" and w = "[]" and ?w1.0 = "[]"
         and c = "ex_file_cid ''a''" and ?w2.0 = "[?blk]" and ?w3.0 = "[?blk]"
         and r = None and ?w4.0 = "[?blk]"]
    by (simp add: ex_lib_def mem_store_def SHA2_256_def writeFiles_def ex_store_node_def
        StorageWriteCommit_def)
  then have 6: "fst (createCar ex_lib mem_store ''a'' ''out.car'' []) = (''bafy'', None)"
    by (simp add: ex_lib_def ex_file_cid_def)
  have 7: "Finalize mem_store [?blk] = (None, [?blk])"
    by (simp add: mem_store_def)
  from 1 2 3 4 5 6 7 show ?thesis by simp
qed

subsection \<open>The order of the calls on the archive\<close>

lemma StorageWriteCommit_traced:
  "\<exists>es. list_all is_access es
     \<and> snd (snd (StorageWriteCommit lib (traced bs) buf l (w, tr))) = tr @ es"
proof (cases l)
  case (OtherLink s)
  then show ?thesis
    by (simp add: StorageWriteCommit_def)
next
  case (CidLink c)
  show ?thesis
  proof (cases "NewBlockWithCid lib buf c")
    case (Inl err)
    with CidLink show ?thesis
      by (simp add: StorageWriteCommit_def)
  next
    case (Inr blk)
    obtain err w' where put: "Put bs blk w = (err, w')"
      by (cases "Put bs blk w") auto
    have "snd (snd (StorageWriteCommit lib (traced bs) buf l (w, tr))) = tr @ [EvPut (Cid blk) (err = None)]"
      using CidLink Inr put by (simp add: StorageWriteCommit_def traced_def)
    then show ?thesis
      by (intro exI [of _ "[EvPut (Cid blk) (err = None)]"]) simp
  qed
qed

lemma StorageReadOpener_traced:
  "\<exists>es. list_all is_access es
     \<and> snd (snd (StorageReadOpener (traced bs) l (w, tr))) = tr @ es"
proof (cases l)
  case (OtherLink s)
  then show ?thesis
    by (simp add: StorageReadOpener_def)
next
  case (CidLink c)
  obtain res w' where get: "Get bs c w = (res, w')"
    by (cases "Get bs c w") auto
  have "snd (snd (StorageReadOpener (traced bs) l (w, tr))) = tr @ [EvGet c (\<not> isl res)]"
    using CidLink get by (cases res) (simp_all add: StorageReadOpener_def traced_def)
  then show ?thesis
    by (intro exI [of _ "[EvGet c (\<not> isl res)]"]) simp
qed

lemma run_traced:
  "\<exists>es. list_all is_access es \<and> snd (snd (run lib (traced bs) t (w, tr))) = tr @ es"
proof (induction t arbitrary: w tr)
  case (Return a)
  show ?case by simp
next
  case (Store l buf k)
  obtain r w' tr' where step: "StorageWriteCommit lib (traced bs) buf l (w, tr) = (r, (w', tr'))"
    by (cases "StorageWriteCommit lib (traced bs) buf l (w, tr)") auto
  obtain es1 where es1: "list_all is_access es1" "tr' = tr @ es1"
    using StorageWriteCommit_traced [of lib bs buf l w tr] step by auto
  obtain es2 where es2: "list_all is_access es2"
      "snd (snd (run lib (traced bs) (k r) (w', tr'))) = tr' @ es2"
    using Store.IH [of "k r" w' tr'] by auto
  show ?case
    using step es1 es2 by (intro exI [of _ "es1 @ es2"]) simp
next
  case (Load l k)
  obtain r w' tr' where step: "StorageReadOpener (traced bs) l (w, tr) = (r, (w', tr'))"
    by (cases "StorageReadOpener (traced bs) l (w, tr)") auto
  obtain es1 where es1: "list_all is_access es1" "tr' = tr @ es1"
    using StorageReadOpener_traced [of bs l w tr] step by auto
  obtain es2 where es2: "list_all is_access es2"
      "snd (snd (run lib (traced bs) (k r) (w', tr'))) = tr' @ es2"
    using Load.IH [of "k r" w' tr'] by auto
  show ?case
    using step es1 es2 by (intro exI [of _ "es1 @ es2"]) simp
qed

lemma writeFiles_loop_traced:
  "\<exists>es. list_all is_access es
     \<and> snd (snd (writeFiles_loop lib (traced bs) noWrap paths topLevel (w, tr))) = tr @ es"
proof (induction paths arbitrary: topLevel w tr)
  case Nil
  show ?case by simp
next
  case (Cons p ps)
  obtain res w' tr' where step:
    "run lib (traced bs) (BuildUnixFSRecursive lib p) (w, tr) = (res, (w', tr'))"
    by (cases "run lib (traced bs) (BuildUnixFSRecursive lib p) (w, tr)") auto
  obtain es1 where es1: "list_all is_access es1" "tr' = tr @ es1"
    using run_traced [of lib bs "BuildUnixFSRecursive lib p" w tr] step by auto
  show ?case
  proof (cases res)
    case (Inl err)
    with step es1 show ?thesis by auto
  next
    case (Inr lsz)
    obtain l sz where lsz: "lsz = (l, sz)" by (cases lsz) auto
    show ?thesis
    proof (cases noWrap)
      case True
      with step es1 Inr lsz show ?thesis
        by (cases l) auto
    next
      case False
      show ?thesis
      proof (cases "BuildUnixFSDirectoryEntry lib (path_Base lib p) (sint sz) l")
        case (Inl err)
        with step es1 Inr lsz False show ?thesis by auto
      next
        case entry: (Inr entry)
        obtain es2 where es2: "list_all is_access es2"
          "snd (snd (writeFiles_loop lib (traced bs) noWrap ps (topLevel @ [entry]) (w', tr'))) = tr' @ es2"
          using Cons.IH [of "topLevel @ [entry]" w' tr'] by auto
        show ?thesis
          using step es1 es2 Inr lsz False entry
          by (intro exI [of _ "es1 @ es2"]) simp
      qed
    qed
  qed
qed

lemma writeFiles_traced:
  "\<exists>es. list_all is_access es
     \<and> snd (snd (writeFiles lib (traced bs) noWrap paths (w, tr))) = tr @ es"
proof -
  obtain res w1 tr1 where loop:
    "writeFiles_loop lib (traced bs) noWrap paths [] (w, tr) = (res, (w1, tr1))"
    by (cases "writeFiles_loop lib (traced bs) noWrap paths [] (w, tr)") auto
  obtain es1 where es1: "list_all is_access es1" "tr1 = tr @ es1"
    using writeFiles_loop_traced [of lib bs noWrap paths "[]" w tr] loop by auto
  show ?thesis
  proof (cases res)
    case (Inl ret)
    with loop es1 show ?thesis
      by (auto simp: writeFiles_def)
  next
    case (Inr topLevel)
    obtain res2 w2 tr2 where dir:
      "run lib (traced bs) (BuildUnixFSDirectory lib topLevel) (w1, tr1) = (res2, (w2, tr2))"
      by (cases "run lib (traced bs) (BuildUnixFSDirectory lib topLevel) (w1, tr1)") auto
    obtain es2 where es2: "list_all is_access es2" "tr2 = tr1 @ es2"
      using run_traced [of lib bs "BuildUnixFSDirectory lib topLevel" w1 tr1] dir by auto
    have "snd (snd (writeFiles lib (traced bs) noWrap paths (w, tr))) = tr2"
      using loop Inr dir
      by (auto simp: writeFiles_def split: sum.splits prod.splits link.splits)
    then show ?thesis
      using es1 es2 by (intro exI [of _ "es1 @ es2"]) simp
  qed
qed

lemma phases_append:
  "phases ph (xs @ ys) = (case phases ph xs of None \<Rightarrow> None | Some ph' \<Rightarrow> phases ph' ys)"
  by (induction xs arbitrary: ph) (auto split: option.splits)

lemma phases_accesses: "list_all is_access es \<Longrightarrow> phases Open es = Some Open"
proof (induction es)
  case Nil
  show ?case by simp
next
  case (Cons e es)
  then show ?case by (cases e) simp_all
qed

text \<open>
  The shape of the record of a run of \<open>createCar\<close>, with the error it returns.
\<close>

lemma createCar_traced:
  assumes res_def: "res = createCar lib (traced bs) input output (w, [])"
  shows "(snd (snd res) = [] \<and> snd (fst res) \<noteq> None)
    \<or> (\<exists>roots. snd (snd res) = [EvOpenReadWrite output roots False] \<and> snd (fst res) \<noteq> None)
    \<or> (\<exists>roots es. list_all is_access es
          \<and> snd (snd res) = EvOpenReadWrite output roots True # es \<and> snd (fst res) \<noteq> None)
    \<or> (\<exists>roots es. list_all is_access es
          \<and> snd (snd res) = EvOpenReadWrite output roots True # es @ [EvFinalize False]
          \<and> snd (fst res) \<noteq> None)
    \<or> (\<exists>roots es root ok. list_all is_access es
          \<and> snd (snd res)
              = EvOpenReadWrite output roots True # es
                  @ [EvFinalize True, EvReplaceRootsInFile output [root] ok]
          \<and> (snd (fst res) = None) = ok)"
proof (cases "GetHasher lib SHA2_256")
  case (Inl err)
  then show ?thesis by (simp add: res_def createCar_def)
next
  case hasher: (Inr h)
  show ?thesis
  proof (cases "Encode lib (h []) SHA2_256")
    case (Inl err)
    with hasher show ?thesis by (simp add: res_def createCar_def)
  next
    case hash: (Inr mh)
    let ?roots = "[NewCidV1 DagPb mh]"
    obtain oerr w1 where opn: "OpenReadWrite bs output ?roots w = (oerr, w1)"
      by (cases "OpenReadWrite bs output ?roots w") auto
    have topn: "OpenReadWrite (traced bs) output ?roots (w, [])
        = (oerr, (w1, [EvOpenReadWrite output ?roots (oerr = None)]))"
      using opn by (simp add: traced_def)
    show ?thesis
    proof (cases oerr)
      case (Some err)
      with hasher hash topn show ?thesis by (simp add: res_def createCar_def)
    next
      case None
      let ?tr1 = "[EvOpenReadWrite output ?roots True]"
      obtain root werr w2 tr2 where wf:
        "writeFiles lib (traced bs) True [input] (w1, ?tr1) = ((root, werr), (w2, tr2))"
        by (cases "writeFiles lib (traced bs) True [input] (w1, ?tr1)") auto
      obtain es where es: "list_all is_access es" "tr2 = ?tr1 @ es"
        using writeFiles_traced [of lib bs True "[input]" w1 ?tr1] wf by auto
      show ?thesis
      proof (cases werr)
        case (Some err)
        with hasher hash topn None wf es show ?thesis
          by (simp add: res_def createCar_def)
      next
        case wok: None
        obtain ferr w3 where fin: "Finalize bs w2 = (ferr, w3)"
          by (cases "Finalize bs w2") auto
        have tfin: "Finalize (traced bs) (w2, tr2) = (ferr, (w3, tr2 @ [EvFinalize (ferr = None)]))"
          using fin by (simp add: traced_def)
        show ?thesis
        proof (cases ferr)
          case (Some err)
          with hasher hash topn None wf es wok tfin show ?thesis
            by (simp add: res_def createCar_def)
        next
          case fok: None
          obtain rerr w4 where rep: "ReplaceRootsInFile bs output [root] w3 = (rerr, w4)"
            by (cases "ReplaceRootsInFile bs output [root] w3") auto
          have trep: "ReplaceRootsInFile (traced bs) output [root] (w3, tr2 @ [EvFinalize True])
              = (rerr, (w4, tr2 @ [EvFinalize True, EvReplaceRootsInFile output [root] (rerr = None)]))"
            using rep by (simp add: traced_def)
          have "res = ((cid_String lib root, rerr),
                 (w4, tr2 @ [EvFinalize True, EvReplaceRootsInFile output [root] (rerr = None)]))"
            using hasher hash topn None wf wok tfin fok trep
            by (simp add: res_def createCar_def)
          with es show ?thesis by auto
        qed
      qed
    qed
  qed
qed

lemma phases_Abandoned: "phases Abandoned es = Some ph \<Longrightarrow> es = [] \<and> ph = Abandoned"
  by (cases es) auto

lemma phases_RootPatched: "phases RootPatched es = Some ph \<Longrightarrow> es = [] \<and> ph = RootPatched"
  by (cases es) auto

lemma phases_Finalized:
  "phases Finalized es = Some ph \<Longrightarrow>
   es = [] \<and> ph = Finalized
   \<or> (\<exists>path roots ok. es = [EvReplaceRootsInFile path roots ok] \<and> ph \<noteq> Open \<and> ph \<noteq> Finalized)"
proof (cases es)
  case Nil
  assume "phases Finalized es = Some ph"
  with Nil show ?thesis by simp
next
  case (Cons e es')
  assume acc: "phases Finalized es = Some ph"
  show ?thesis
  proof (cases e)
    case (EvReplaceRootsInFile path roots ok)
    with acc Cons show ?thesis
      by (cases ok) (auto dest: phases_RootPatched phases_Abandoned)
  qed (use acc Cons in simp_all)
qed

lemma phases_to_Open:
  "phases ph pre = Some Open \<Longrightarrow> list_all (\<lambda>e. \<not> is_ReplaceRoots e \<and> \<not> is_Finalize e) pre"
proof (induction pre arbitrary: ph)
  case Nil
  show ?case by simp
next
  case (Cons e es)
  then obtain ph' where step: "phase_step ph e = Some ph'" and rest: "phases ph' es = Some Open"
    by (auto split: option.splits)
  have tail: "list_all (\<lambda>e. \<not> is_ReplaceRoots e \<and> \<not> is_Finalize e) es"
    using Cons.IH [OF rest] .
  have "\<not> is_ReplaceRoots e \<and> \<not> is_Finalize e"
  proof (cases e)
    case (EvFinalize ok)
    with step have "ph' = Finalized \<or> ph' = Abandoned"
      by (cases ph) (auto split: if_splits)
    with rest show ?thesis
      by (auto dest: phases_Finalized phases_Abandoned)
  next
    case (EvReplaceRootsInFile path roots ok)
    with step have "ph' = RootPatched \<or> ph' = Abandoned"
      by (cases ph) (auto split: if_splits)
    with rest show ?thesis
      by (auto dest: phases_RootPatched phases_Abandoned)
  qed simp_all
  with tail show ?case by simp
qed

lemma phases_to_Finalized:
  "phases ph (pre @ [e]) = Some Finalized \<Longrightarrow> e = EvFinalize True"
proof -
  assume "phases ph (pre @ [e]) = Some Finalized"
  then obtain p where "phase_step p e = Some Finalized"
    by (auto simp: phases_append split: option.splits)
  then show ?thesis
    by (cases p; cases e) (auto split: if_splits)
qed

text \<open>
  What a record that the state machine accepts looks like around \<open>Finalize\<close> and
  \<open>ReplaceRootsInFile\<close>.
\<close>

lemma phases_order:
  assumes "phases Unopened tr = Some ph"
  shows "(\<forall>pre ok post. tr = pre @ EvFinalize ok # post \<longrightarrow>
            list_all (\<lambda>e. \<not> is_Put e) post \<and> list_all (\<lambda>e. \<not> is_ReplaceRoots e) pre)
       \<and> (\<forall>pre path roots ok post. tr = pre @ EvReplaceRootsInFile path roots ok # post \<longrightarrow>
            post = [] \<and> pre \<noteq> [] \<and> last pre = EvFinalize True)"
proof (intro conjI allI impI)
  fix pre ok post
  assume tr: "tr = pre @ EvFinalize ok # post"
  with assms obtain p1 p2 where
    pre: "phases Unopened pre = Some p1" and
    step: "phase_step p1 (EvFinalize ok) = Some p2" and
    post: "phases p2 post = Some ph"
    by (auto simp: phases_append split: option.splits)
  from step have p1: "p1 = Open" and p2: "p2 = Finalized \<or> p2 = Abandoned"
    by (cases p1; auto split: if_splits)+
  from p2 post show "list_all (\<lambda>e. \<not> is_Put e) post"
    by (auto dest: phases_Finalized phases_Abandoned)
  from pre p1 have "list_all (\<lambda>e. \<not> is_ReplaceRoots e \<and> \<not> is_Finalize e) pre"
    by (auto dest: phases_to_Open)
  then show "list_all (\<lambda>e. \<not> is_ReplaceRoots e) pre"
    by (induction pre) auto
next
  fix pre path roots ok post
  assume tr: "tr = pre @ EvReplaceRootsInFile path roots ok # post"
  with assms obtain p1 p2 where
    pre: "phases Unopened pre = Some p1" and
    step: "phase_step p1 (EvReplaceRootsInFile path roots ok) = Some p2" and
    post: "phases p2 post = Some ph"
    by (auto simp: phases_append split: option.splits)
  from step have p1: "p1 = Finalized" and p2: "p2 = RootPatched \<or> p2 = Abandoned"
    by (cases p1; auto split: if_splits)+
  from p2 post show "post = []"
    by (auto dest: phases_RootPatched phases_Abandoned)
  from pre p1 show "pre \<noteq> []"
    by auto
  then obtain xs x where snoc: "pre = xs @ [x]"
    by (cases pre rule: rev_cases) auto
  with pre p1 have "x = EvFinalize True"
    by (auto dest: phases_to_Finalized)
  with snoc show "last pre = EvFinalize True"
    by simp
qed

lemma createCar_accepted:
  "\<exists>ph. phases Unopened (snd (snd (createCar lib (traced bs) input output (w, [])))) = Some ph
     \<and> (snd (fst (createCar lib (traced bs) input output (w, []))) = None \<longrightarrow> ph = RootPatched)"
proof -
  define res where "res = createCar lib (traced bs) input output (w, [])"
  define tr where "tr = snd (snd res)"
  define err where "err = snd (fst res)"
  have shape: "(tr = [] \<and> err \<noteq> None)
    \<or> (\<exists>roots. tr = [EvOpenReadWrite output roots False] \<and> err \<noteq> None)
    \<or> (\<exists>roots es. list_all is_access es
          \<and> tr = EvOpenReadWrite output roots True # es \<and> err \<noteq> None)
    \<or> (\<exists>roots es. list_all is_access es
          \<and> tr = EvOpenReadWrite output roots True # es @ [EvFinalize False] \<and> err \<noteq> None)
    \<or> (\<exists>roots es root ok. list_all is_access es
          \<and> tr = EvOpenReadWrite output roots True # es
                  @ [EvFinalize True, EvReplaceRootsInFile output [root] ok]
          \<and> (err = None) = ok)"
    unfolding tr_def err_def by (rule createCar_traced [OF res_def])
  then have "\<exists>ph. phases Unopened tr = Some ph \<and> (err = None \<longrightarrow> ph = RootPatched)"
  proof (elim disjE exE conjE, goal_cases)
    case 1
    then show ?case by simp
  next
    case (2 roots)
    then show ?case by simp
  next
    case (3 roots es)
    then show ?case by (simp add: phases_accesses)
  next
    case (4 roots es)
    then show ?case by (simp add: phases_append phases_accesses)
  next
    case (5 roots es root ok)
    have "phases Unopened tr = Some (if ok then RootPatched else Abandoned)"
      using 5(1,2) by (simp add: phases_append phases_accesses)
    with 5(3) show ?case by auto
  qed
  then show ?thesis
    by (simp add: tr_def err_def res_def)
qed

text \<open>
  C7. In every execution of \<open>createCar\<close> the calls on the archive keep to the state
  machine \<open>Open\<close>, \<open>Finalized\<close>, \<open>RootPatched\<close>: no call is one the machine rejects, and a
  run that returns a nil error ends in \<open>RootPatched\<close>. In particular no \<open>Put\<close> comes after
  \<open>Finalize\<close>, no \<open>ReplaceRootsInFile\<close> comes before it, and \<open>ReplaceRootsInFile\<close> is the
  last call and directly follows a \<open>Finalize\<close> that succeeded.
\<close>

theorem createCar_two_phase_order:
  "(\<exists>ph. phases Unopened (snd (snd (createCar lib (traced bs) input output (w, [])))) = Some ph
      \<and> (snd (fst (createCar lib (traced bs) input output (w, []))) = None \<longrightarrow> ph = RootPatched))
   \<and> (\<forall>pre ok post.
        snd (snd (createCar lib (traced bs) input output (w, []))) = pre @ EvFinalize ok # post \<longrightarrow>
        list_all (\<lambda>e. \<not> is_Put e) post \<and> list_all (\<lambda>e. \<not> is_ReplaceRoots e) pre)
   \<and> (\<forall>pre path roots ok post.
        snd (snd (createCar lib (traced bs) input output (w, [])))
          = pre @ EvReplaceRootsInFile path roots ok # post \<longrightarrow>
        post = [] \<and> pre \<noteq> [] \<and> last pre = EvFinalize True)"
proof -
  from createCar_accepted [of lib bs input "output" w] obtain ph where
    acc: "phases Unopened (snd (snd (createCar lib (traced bs) input output (w, [])))) = Some ph" and
    ok: "snd (fst (createCar lib (traced bs) input output (w, []))) = None \<longrightarrow> ph = RootPatched"
    by (elim exE conjE)
  from acc ok have
    "\<exists>ph. phases Unopened (snd (snd (createCar lib (traced bs) input output (w, [])))) = Some ph
      \<and> (snd (fst (createCar lib (traced bs) input output (w, []))) = None \<longrightarrow> ph = RootPatched)"
    by (intro exI [of _ ph] conjI)
  moreover note phases_order [OF acc]
  ultimately show ?thesis
    by (elim conjE, intro conjI)
qed

theorem createCar_two_phase_order_witness:
  "createCar ex_lib (traced mem_store) ''a'' ''out.car'' ([], [])
     = ((''bafy'', None),
        ([\<lparr>RawData = [1], Cid = ex_file_cid ''a''\<rparr>],
         [EvOpenReadWrite ''out.car'' [NewCidV1 DagPb [0x12, 1, 0xe3]] True,
          EvPut (ex_file_cid ''a'') True] @
         EvFinalize True # [EvReplaceRootsInFile ''out.car'' [ex_file_cid ''a''] True]))
   \<and> phases Unopened (snd (snd (createCar ex_lib (traced mem_store) ''a'' ''out.car'' ([], []))))
       = Some RootPatched
   \<and> list_all (\<lambda>e. \<not> is_Put e) [EvReplaceRootsInFile ''out.car'' [ex_file_cid ''a''] True]"
proof -
  let ?pre = "[EvOpenReadWrite ''out.car'' [NewCidV1 DagPb [0x12, 1, 0xe3]] True,
          EvPut (ex_file_cid ''a'') True]"
  let ?post = "[EvReplaceRootsInFile ''out.car'' [ex_file_cid ''a''] True]"
  have run: "createCar ex_lib (traced mem_store) ''a'' ''out.car'' ([], [])
     = ((''bafy'', None), ([\<lparr>RawData = [1], Cid = ex_file_cid ''a''\<rparr>], ?pre @ EvFinalize True # ?post))"
    by (simp add: createCar_def writeFiles_def ex_lib_def mem_store_def traced_def ex_store_node_def
        StorageWriteCommit_def ex_file_cid_def SHA2_256_def DagPb_def)
  have order: "snd (snd (createCar ex_lib (traced mem_store) ''a'' ''out.car'' ([], [])))
      = ?pre @ EvFinalize True # ?post"
    using run by simp
  have nil: "snd (fst (createCar ex_lib (traced mem_store) ''a'' ''out.car'' ([], []))) = None"
    using run by simp
  note inst = createCar_two_phase_order [of ex_lib mem_store "''a''" "''out.car''" "[]"]
  from inst obtain ph where
    acc: "phases Unopened (snd (snd (createCar ex_lib (traced mem_store) ''a'' ''out.car'' ([], [])))) = Some ph" and
    ok: "snd (fst (createCar ex_lib (traced mem_store) ''a'' ''out.car'' ([], []))) = None \<longrightarrow> ph = RootPatched"
    by (elim exE conjE)
  from inst have fin: "\<forall>pre ok post.
        snd (snd (createCar ex_lib (traced mem_store) ''a'' ''out.car'' ([], []))) = pre @ EvFinalize ok # post \<longrightarrow>
        list_all (\<lambda>e. \<not> is_Put e) post \<and> list_all (\<lambda>e. \<not> is_ReplaceRoots e) pre"
    by (elim conjE)
  from ok nil have "ph = RootPatched" by (rule mp)
  with acc have patched:
    "phases Unopened (snd (snd (createCar ex_lib (traced mem_store) ''a'' ''out.car'' ([], [])))) = Some RootPatched"
    by (rule back_subst [where P = "\<lambda>p. phases Unopened (snd (snd (createCar ex_lib (traced mem_store) ''a'' ''out.car'' ([], [])))) = Some p"])
  from fin [rule_format, OF order] have "list_all (\<lambda>e. \<not> is_Put e) ?post"
    by (rule conjunct1)
  with run patched show ?thesis
    by (intro conjI)
qed

end
